theory Spec2Isabelle
  imports Main "HOL-Library.Sublist" "HOL-Library.AList"
begin

section \<open>The page state of \<^verbatim>\<open>src/pages/index.tsx\<close>\<close>

text \<open>
  The component \<^verbatim>\<open>Home\<close> keeps one list of \<^verbatim>\<open>ConvertedImage\<close> values in React state
  and changes it only through \<^verbatim>\<open>setImages\<close> with an updater function. The embedding
  keeps that list, written \<open>images\<close>, and applies each updater to it in the order the
  calls are made. JavaScript strings are modelled as \<open>string\<close>.
\<close>

datatype status = Pending | Converting | Done | Error

text \<open>The field \<^verbatim>\<open>id\<close> of the source is \<open>id'\<close> here, since \<open>id\<close> is the identity of HOL.\<close>

record ConvertedImage =
  id' :: string
  originalName :: string
  pngUrl :: string
  status :: status

text \<open>Of a browser \<^verbatim>\<open>File\<close> the code reads the fields \<^verbatim>\<open>name\<close> and \<^verbatim>\<open>type\<close> only.\<close>

record File =
  name :: string
  type :: string

text \<open>
  What the \<^verbatim>\<open>try\<close> block of \<^verbatim>\<open>processFile\<close> ends with. \<open>Converted pngUrl\<close>: the calls
  \<^verbatim>\<open>createImageBitmap\<close>, \<^verbatim>\<open>getContext\<close>, \<^verbatim>\<open>drawImage\<close> and \<^verbatim>\<open>toDataURL\<close> all returned, the
  last one with \<open>pngUrl\<close>. \<open>Failed\<close>: one of them threw, or the context was null and the
  code threw itself; the \<^verbatim>\<open>catch\<close> block runs. The browser calls are outside the
  repository, so their result is a parameter.
\<close>

datatype outcome = Converted string | Failed

text \<open>
  The page: the React state \<^verbatim>\<open>images\<close>, and the identifiers of the calls of
  \<^verbatim>\<open>processFile\<close> that are suspended at \<^verbatim>\<open>await createImageBitmap(file)\<close>.
\<close>

record page =
  images :: "ConvertedImage list"
  inflight :: "string list"

definition init_page :: page where
  "init_page = \<lparr>images = [], inflight = []\<rparr>"

subsection \<open>\<^verbatim>\<open>processFile\<close>\<close>

text \<open>
  Lines 21 to 24: the part of \<^verbatim>\<open>processFile\<close> that runs before the first \<^verbatim>\<open>await\<close>. The
  argument \<open>r\<close> is the string that \<^verbatim>\<open>Math.random().toString(36).substr(2, 9)\<close> evaluates to
  in this call; it is a parameter, since nothing in the code constrains it.
\<close>

definition processFile_start :: "File \<Rightarrow> string \<Rightarrow> page \<Rightarrow> page" where
  "processFile_start file r s =
     (if \<not> prefix ''image/'' (type file) then s
      else s\<lparr>images := images s @
                 [\<lparr>id' = r, originalName = name file, pngUrl = [], status = Converting\<rparr>],
             inflight := inflight s @ [r]\<rparr>)"

text \<open>Lines 37 to 39 and 42 to 44: the two updaters passed to \<^verbatim>\<open>setImages\<close>.\<close>

definition set_done :: "string \<Rightarrow> string \<Rightarrow> ConvertedImage list \<Rightarrow> ConvertedImage list" where
  "set_done r url prev =
     map (\<lambda>img. if id' img = r then img\<lparr>pngUrl := url, status := Done\<rparr> else img) prev"

definition set_error :: "string \<Rightarrow> ConvertedImage list \<Rightarrow> ConvertedImage list" where
  "set_error r prev =
     map (\<lambda>img. if id' img = r then img\<lparr>status := Error\<rparr> else img) prev"

text \<open>The continuation of the call with identifier \<open>r\<close>, once its \<^verbatim>\<open>try\<close> block has ended.\<close>

definition processFile_settle :: "string \<Rightarrow> outcome \<Rightarrow> page \<Rightarrow> page" where
  "processFile_settle r out s =
     s\<lparr>images := (case out of
                    Converted url \<Rightarrow> set_done r url (images s)
                  | Failed \<Rightarrow> set_error r (images s)),
       inflight := remove1 r (inflight s)\<rparr>"

subsection \<open>The buttons\<close>

text \<open>Line 157, \<^verbatim>\<open>setImages(prev => prev.filter(i => i.id !== img.id))\<close>.\<close>

definition removeItem :: "string \<Rightarrow> ConvertedImage list \<Rightarrow> ConvertedImage list" where
  "removeItem rid prev = filter (\<lambda>i. id' i \<noteq> rid) prev"

text \<open>Line 113, \<^verbatim>\<open>setImages([])\<close>.\<close>

definition clearAll :: "ConvertedImage list \<Rightarrow> ConvertedImage list" where
  "clearAll prev = []"

subsection \<open>\<^verbatim>\<open>downloadAll\<close>\<close>

text \<open>
  The regular expression \<^verbatim>\<open>/\.[^/.]+$/\<close> matches at a position when the rest of the string
  is a dot followed by one or more characters, none of them a slash or a dot.
  \<^verbatim>\<open>replace\<close> with a regular expression without the \<^verbatim>\<open>g\<close> flag replaces the leftmost
  match; since a match runs to the end of the string, what is left is the text before it.
\<close>

definition ext_match :: "string \<Rightarrow> bool" where
  "ext_match s =
     (case s of
        [] \<Rightarrow> False
      | c # cs \<Rightarrow> c = CHR ''.'' \<and> cs \<noteq> [] \<and> list_all (\<lambda>d. d \<noteq> CHR ''/'' \<and> d \<noteq> CHR ''.'') cs)"

fun strip_ext :: "string \<Rightarrow> string" where
  "strip_ext [] = []"
| "strip_ext (c # cs) = (if ext_match (c # cs) then [] else c # strip_ext cs)"

text \<open>Line 65.\<close>

definition fileName :: "ConvertedImage \<Rightarrow> string" where
  "fileName img = strip_ext (originalName img) @ ''.png''"

text \<open>Line 64, \<^verbatim>\<open>img.pngUrl.replace(/^data:image\/png;base64,/, "")\<close>.\<close>

definition base64Data :: "ConvertedImage \<Rightarrow> string" where
  "base64Data img =
     (if prefix ''data:image/png;base64,'' (pngUrl img)
      then drop (length ''data:image/png;base64,'') (pngUrl img)
      else pngUrl img)"

subsection \<open>JSZip\<close>

text \<open>
  JSZip is the library the page imports, not code of the repository; what follows is the
  part of it that \<^verbatim>\<open>downloadAll\<close> runs, after JSZip 3.1.5. A \<^verbatim>\<open>JSZip\<close> object is its table
  \<^verbatim>\<open>files\<close>, keyed by entry name, in insertion order. An entry is a file with the text it
  was given, or a folder.
\<close>

datatype ZipObject = ZipFile string | ZipDir

type_synonym JSZip = "(string \<times> ZipObject) list"

text \<open>JavaScript's \<^verbatim>\<open>s.lastIndexOf(c)\<close>: the greatest index of \<open>c\<close> in \<open>s\<close>, or \<open>-1\<close>.\<close>

definition lastIndexOf :: "string \<Rightarrow> char \<Rightarrow> int" where
  "lastIndexOf s c =
     (if c \<in> set s then int (length s) - 1 - int (length (takeWhile (\<lambda>d. d \<noteq> c) (rev s)))
      else - 1)"

text \<open>\<^verbatim>\<open>parentFolder\<close> and \<^verbatim>\<open>forceTrailingSlash\<close> of the library.\<close>

definition parentFolder :: "string \<Rightarrow> string" where
  "parentFolder path =
     (let path' = (if path \<noteq> [] \<and> last path = CHR ''/'' then butlast path else path);
          lastSlash = lastIndexOf path' (CHR ''/'')
      in if lastSlash > 0 then take (nat lastSlash) path' else [])"

definition forceTrailingSlash :: "string \<Rightarrow> string" where
  "forceTrailingSlash path =
     (if \<not> (path \<noteq> [] \<and> last path = CHR ''/'') then path @ ''/'' else path)"

text \<open>
  \<^verbatim>\<open>folderAdd(name, true)\<close>: if no entry has the name (with a slash at its end), the folder
  is added by \<^verbatim>\<open>fileAdd\<close> with \<^verbatim>\<open>dir: true\<close>, which first adds the parent folder, if the name
  has one, and then assigns the folder entry.
\<close>

function folderAdd :: "string \<Rightarrow> JSZip \<Rightarrow> JSZip" where
  "folderAdd dname z =
     (if forceTrailingSlash dname \<in> set (map fst z) then z
      else if parentFolder (forceTrailingSlash dname) \<noteq> []
      then AList.update (forceTrailingSlash dname) ZipDir
             (folderAdd (parentFolder (forceTrailingSlash dname)) z)
      else AList.update (forceTrailingSlash dname) ZipDir z)"
  by pat_completeness auto
termination
proof (relation "measure (\<lambda>(dname, z). length dname)")
  show "wf (measure (\<lambda>(dname, z). length dname))" by simp
next
  fix dname :: string and z :: JSZip
  assume ne: "parentFolder (forceTrailingSlash dname) \<noteq> []"
  define p where "p = (if dname \<noteq> [] \<and> last dname = CHR ''/'' then butlast dname else dname)"
  have strip: "(if forceTrailingSlash dname \<noteq> [] \<and> last (forceTrailingSlash dname) = CHR ''/''
                then butlast (forceTrailingSlash dname) else forceTrailingSlash dname) = p"
    by (simp add: forceTrailingSlash_def p_def)
  have parent: "parentFolder (forceTrailingSlash dname) =
      (if lastIndexOf p (CHR ''/'') > 0 then take (nat (lastIndexOf p (CHR ''/''))) p else [])"
    unfolding parentFolder_def strip by (simp add: Let_def)
  from ne parent have pos: "lastIndexOf p (CHR ''/'') > 0" by (simp split: if_splits)
  then have "lastIndexOf p (CHR ''/'') < int (length p)"
    by (simp add: lastIndexOf_def split: if_splits)
  with pos parent have "length (parentFolder (forceTrailingSlash dname)) < length p"
    by simp
  moreover have "length p \<le> length dname" by (simp add: p_def)
  ultimately show "((parentFolder (forceTrailingSlash dname), z), (dname, z))
                     \<in> measure (\<lambda>(dname, z). length dname)"
    by simp
qed

declare folderAdd.simps [simp del]

text \<open>
  \<^verbatim>\<open>zip.file(name, data, { base64: true })\<close>, that is \<^verbatim>\<open>fileAdd\<close> for a file: the option
  \<^verbatim>\<open>createFolders\<close> is true by default, so the parent folder of the name, if it has one, is
  added first; then the entry is assigned under the name, replacing what was stored under
  that name before.
\<close>

definition zip_file :: "string \<Rightarrow> string \<Rightarrow> JSZip \<Rightarrow> JSZip" where
  "zip_file fname data z =
     AList.update fname (ZipFile data)
       (if parentFolder fname \<noteq> [] then folderAdd (parentFolder fname) z else z)"

text \<open>
  \<^verbatim>\<open>base64.decode\<close> of the library throws on a text that starts with \<^verbatim>\<open>data:\<close>, and on a
  text whose number of base64 characters, times three quarters, is not an integer.
  \<^verbatim>\<open>fileAdd\<close> does not decode an empty text.
\<close>

definition base64_decodes :: "string \<Rightarrow> bool" where
  "base64_decodes input =
     (\<not> prefix ''data:'' input \<and>
      (3 * length (filter (\<lambda>c. c \<in> set
         ''ABCDEFGHIJKLMNOPQRSTUVWXYZabcdefghijklmnopqrstuvwxyz0123456789+/='') input)) mod 4 = 0)"

definition content_ok :: "ZipObject \<Rightarrow> bool" where
  "content_ok obj = (case obj of ZipDir \<Rightarrow> True | ZipFile data \<Rightarrow> data = [] \<or> base64_decodes data)"

text \<open>
  \<^verbatim>\<open>zip.generateAsync({ type: "blob" })\<close>: the promise is rejected when the text of an entry
  does not decode, and resolves to the archive of the entries otherwise. The compression
  and the bytes of the archive are not modelled: the content is the table of entries.
\<close>

datatype error = InvalidBase64

definition generateAsync :: "JSZip \<Rightarrow> error + JSZip" where
  "generateAsync z = (if list_all (\<lambda>e. content_ok (snd e)) z then Inr z else Inl InvalidBase64)"

subsection \<open>\<^verbatim>\<open>downloadAll\<close>, lines 61 to 71\<close>

text \<open>
  Lines 63 to 67: the \<^verbatim>\<open>forEach\<close> over the selected items, adding to the archive \<open>z\<close>.
\<close>

definition add_entries :: "JSZip \<Rightarrow> ConvertedImage list \<Rightarrow> JSZip" where
  "add_entries z xs = foldl (\<lambda>z img. zip_file (fileName img) (base64Data img) z) z xs"

text \<open>
  The \<^verbatim>\<open>await\<close> of line 69 is in no \<^verbatim>\<open>try\<close> block: when \<^verbatim>\<open>generateAsync\<close> is rejected,
  \<^verbatim>\<open>downloadAll\<close> ends there and \<^verbatim>\<open>saveAs\<close> is not called (\<open>Inl\<close>). Otherwise the result is
  the archive handed to \<^verbatim>\<open>saveAs\<close> and the name it is saved under.
\<close>

definition downloadAll :: "ConvertedImage list \<Rightarrow> error + JSZip \<times> string" where
  "downloadAll imgs =
     (case generateAsync (add_entries [] (filter (\<lambda>img. status img = Done) imgs)) of
        Inl e \<Rightarrow> Inl e
      | Inr content \<Rightarrow> Inr (content, ''converted_images.zip''))"

subsection \<open>Runs of the page\<close>

text \<open>
  What can happen to the page, one event at a time: a file is handed to \<^verbatim>\<open>processFile\<close>
  (by a drop or by the file picker; \<^verbatim>\<open>forEach\<close> hands them over one by one), a suspended
  call of \<^verbatim>\<open>processFile\<close> resumes, or a button is pressed. JavaScript runs each of them to
  its next \<^verbatim>\<open>await\<close> without interleaving.
\<close>

datatype event =
  ProcessFile File string
| Settle string outcome
| RemoveItem string
| ClearAll
| DownloadAll

text \<open>A call can resume only while it is suspended; every other event is always possible.\<close>

fun step :: "page \<Rightarrow> event \<Rightarrow> page option" where
  "step s (ProcessFile file r) = Some (processFile_start file r s)"
| "step s (Settle r out) =
     (if r \<in> set (inflight s) then Some (processFile_settle r out s) else None)"
| "step s (RemoveItem rid) = Some (s\<lparr>images := removeItem rid (images s)\<rparr>)"
| "step s ClearAll = Some (s\<lparr>images := clearAll (images s)\<rparr>)"
| "step s DownloadAll = Some s"

fun run :: "page \<Rightarrow> event list \<Rightarrow> page option" where
  "run s [] = Some s"
| "run s (e # es) = (case step s e of None \<Rightarrow> None | Some s' \<Rightarrow> run s' es)"

text \<open>The identifiers drawn in a run: one for each file that passes the type check.\<close>

fun generated_ids :: "event list \<Rightarrow> string list" where
  "generated_ids [] = []"
| "generated_ids (ProcessFile file r # es) =
     (if prefix ''image/'' (type file) then r # generated_ids es else generated_ids es)"
| "generated_ids (e # es) = generated_ids es"

text \<open>The data URLs that \<^verbatim>\<open>toDataURL\<close> returned in a run.\<close>

fun outputs :: "event list \<Rightarrow> string list" where
  "outputs [] = []"
| "outputs (Settle r (Converted url) # es) = url # outputs es"
| "outputs (e # es) = outputs es"

subsection \<open>Invariants of a run\<close>

text \<open>
  \<open>G\<close> is the set of identifiers drawn so far. The identifiers of the items and of the
  suspended calls are among them, no two items and no two suspended calls share one, and
  the call of an item that is \<open>Done\<close> or \<open>Error\<close> is not suspended any more.
\<close>

definition ids_ok :: "string set \<Rightarrow> page \<Rightarrow> bool" where
  "ids_ok G s \<longleftrightarrow>
     (\<forall>x \<in> set (images s). id' x \<in> G) \<and> set (inflight s) \<subseteq> G \<and>
     distinct (map id' (images s)) \<and> distinct (inflight s) \<and>
     (\<forall>x \<in> set (images s). status x = Done \<or> status x = Error \<longrightarrow> id' x \<notin> set (inflight s))"

text \<open>An item is \<open>Done\<close> exactly when its \<open>pngUrl\<close> is not the empty string.\<close>

definition status_output_ok :: "page \<Rightarrow> bool" where
  "status_output_ok s \<longleftrightarrow> (\<forall>x \<in> set (images s). status x = Done \<longleftrightarrow> pngUrl x \<noteq> [])"

text \<open>
  The identifier of \<open>x\<close> has been drawn, no suspended call has it, and the only item that
  can have it is \<open>x\<close> as it is.
\<close>

definition frozen :: "ConvertedImage \<Rightarrow> string set \<Rightarrow> page \<Rightarrow> bool" where
  "frozen x G s \<longleftrightarrow>
     id' x \<in> G \<and> id' x \<notin> set (inflight s) \<and> (\<forall>y \<in> set (images s). id' y = id' x \<longrightarrow> y = x)"

section \<open>The archive\<close>

lemma forceTrailingSlash_last:
  "forceTrailingSlash p \<noteq> [] \<and> last (forceTrailingSlash p) = CHR ''/''"
  by (simp add: forceTrailingSlash_def)

lemma update_set: "set (AList.update k v al) \<subseteq> insert (k, v) (set al)"
  by (induction al) auto


lemma folderAdd_lookup:
  "n = [] \<or> last n \<noteq> CHR ''/'' \<Longrightarrow> map_of (folderAdd p z) n = map_of z n"
proof (induction p z rule: folderAdd.induct)
  case (1 dname z)
  from "1.prems" forceTrailingSlash_last [of dname]
  have ne: "n \<noteq> forceTrailingSlash dname" by auto
  show ?case
  proof (cases "forceTrailingSlash dname \<in> set (map fst z)")
    case True
    then show ?thesis by (subst folderAdd.simps) simp
  next
    case False
    show ?thesis
    proof (cases "parentFolder (forceTrailingSlash dname) \<noteq> []")
      case True
      from "1.IH" [OF False True "1.prems"] False True ne show ?thesis
        by (subst folderAdd.simps) (simp add: update_conv')
    next
      case no_parent: False
      with False ne show ?thesis
        by (subst folderAdd.simps) (simp add: update_conv')
    qed
  qed
qed

lemma folderAdd_distinct: "distinct (map fst z) \<Longrightarrow> distinct (map fst (folderAdd p z))"
proof (induction p z rule: folderAdd.induct)
  case (1 dname z)
  show ?case
  proof (cases "forceTrailingSlash dname \<in> set (map fst z)")
    case True
    with "1.prems" show ?thesis by (subst folderAdd.simps) simp
  next
    case False
    show ?thesis
    proof (cases "parentFolder (forceTrailingSlash dname) \<noteq> []")
      case True
      from "1.IH" [OF False True "1.prems"] False True show ?thesis
        by (subst folderAdd.simps) (simp add: distinct_update)
    next
      case no_parent: False
      with False "1.prems" show ?thesis
        by (subst folderAdd.simps) (simp add: distinct_update)
    qed
  qed
qed

lemma folderAdd_set: "set (folderAdd p z) \<subseteq> set z \<union> {e. snd e = ZipDir}"
proof (induction p z rule: folderAdd.induct)
  case (1 dname z)
  show ?case
  proof (cases "forceTrailingSlash dname \<in> set (map fst z)")
    case True
    then show ?thesis by (subst folderAdd.simps) simp
  next
    case False
    show ?thesis
    proof (cases "parentFolder (forceTrailingSlash dname) \<noteq> []")
      case True
      from "1.IH" [OF False True]
        update_set [of "forceTrailingSlash dname" ZipDir
                       "folderAdd (parentFolder (forceTrailingSlash dname)) z"]
      have "set (AList.update (forceTrailingSlash dname) ZipDir
                   (folderAdd (parentFolder (forceTrailingSlash dname)) z))
              \<subseteq> set z \<union> {e. snd e = ZipDir}"
        by auto
      with False True show ?thesis by (subst folderAdd.simps) simp
    next
      case no_parent: False
      from update_set [of "forceTrailingSlash dname" ZipDir z]
      have "set (AList.update (forceTrailingSlash dname) ZipDir z) \<subseteq> set z \<union> {e. snd e = ZipDir}"
        by auto
      with False no_parent show ?thesis by (subst folderAdd.simps) simp
    qed
  qed
qed

lemma zip_file_lookup_same: "map_of (zip_file n d z) n = Some (ZipFile d)"
  by (simp add: zip_file_def update_conv')

lemma zip_file_lookup_other:
  "k \<noteq> n \<Longrightarrow> k = [] \<or> last k \<noteq> CHR ''/'' \<Longrightarrow> map_of (zip_file n d z) k = map_of z k"
  by (simp add: zip_file_def update_conv' folderAdd_lookup)

lemma zip_file_distinct: "distinct (map fst z) \<Longrightarrow> distinct (map fst (zip_file n d z))"
  by (simp add: zip_file_def distinct_update folderAdd_distinct)

lemma zip_file_set: "set (zip_file n d z) \<subseteq> insert (n, ZipFile d) (set z \<union> {e. snd e = ZipDir})"
  using update_set [of n "ZipFile d" "folderAdd (parentFolder n) z"]
    update_set [of n "ZipFile d" z] folderAdd_set [of "parentFolder n" z]
  by (auto simp: zip_file_def)



lemma fileName_last: "fileName x \<noteq> [] \<and> last (fileName x) \<noteq> CHR ''/''"
  by (simp add: fileName_def)



lemma add_entries_Cons:
  "add_entries z (x # xs) = add_entries (zip_file (fileName x) (base64Data x) z) xs"
  by (simp add: add_entries_def)

lemma add_entries_set:
  "set (add_entries z xs)
     \<subseteq> set z \<union> (\<lambda>x. (fileName x, ZipFile (base64Data x))) ` set xs \<union> {e. snd e = ZipDir}"
proof (induction xs arbitrary: z)
  case Nil
  then show ?case by (simp add: add_entries_def)
next
  case (Cons x xs)
  from Cons.IH [of "zip_file (fileName x) (base64Data x) z"]
    zip_file_set [of "fileName x" "base64Data x" z]
  show ?case
    unfolding add_entries_Cons by auto
qed

lemma add_entries_distinct: "distinct (map fst z) \<Longrightarrow> distinct (map fst (add_entries z xs))"
  by (induction xs arbitrary: z) (simp_all add: add_entries_def zip_file_distinct)

lemma add_entries_other:
  "n \<notin> fileName ` set xs \<Longrightarrow> n = [] \<or> last n \<noteq> CHR ''/'' \<Longrightarrow>
   map_of (add_entries z xs) n = map_of z n"
proof (induction xs arbitrary: z)
  case Nil
  then show ?case by (simp add: add_entries_def)
next
  case (Cons x xs)
  from Cons.prems have "n \<noteq> fileName x" "n \<notin> fileName ` set xs" by auto
  with Cons.IH [of "zip_file (fileName x) (base64Data x) z"] Cons.prems(2)
  show ?case
    unfolding add_entries_Cons by (simp add: zip_file_lookup_other)
qed

lemma add_entries_last:
  assumes "fileName y \<notin> fileName ` set ys"
  shows "map_of (add_entries z (xs @ y # ys)) (fileName y) = Some (ZipFile (base64Data y))"
proof -
  have "add_entries z (xs @ y # ys)
          = add_entries (zip_file (fileName y) (base64Data y) (add_entries z xs)) ys"
    by (simp add: add_entries_def)
  with add_entries_other [OF assms, of "zip_file (fileName y) (base64Data y) (add_entries z xs)"]
    fileName_last [of y]
  show ?thesis
    by (simp add: zip_file_lookup_same)
qed




lemma one_entry:
  "distinct (map fst z) \<Longrightarrow> map_of z n = Some d \<Longrightarrow> filter (\<lambda>e. fst e = n) z = [(n, d)]"
  by (induction z) (auto simp: filter_empty_conv rev_image_eqI split: if_splits)


lemma generateAsync_ok:
  "(\<forall>e \<in> set z. content_ok (snd e)) \<Longrightarrow> generateAsync z = Inr z"
  by (simp add: generateAsync_def list_all_iff)

lemma generateAsync_Inr: "generateAsync z = Inr content \<Longrightarrow> content = z"
  by (simp add: generateAsync_def split: if_splits)

lemma downloadAll_Inr:
  "downloadAll imgs = Inr (archive, n) \<Longrightarrow>
   archive = add_entries [] (filter (\<lambda>img. status img = Done) imgs) \<and> n = ''converted_images.zip''"
  by (auto simp: downloadAll_def dest: generateAsync_Inr split: sum.splits)

lemma downloadAll_ok:
  assumes "\<forall>x \<in> set imgs. status x = Done \<longrightarrow> base64Data x = [] \<or> base64_decodes (base64Data x)"
  shows "downloadAll imgs =
           Inr (add_entries [] (filter (\<lambda>img. status img = Done) imgs), ''converted_images.zip'')"
proof -
  let ?z = "add_entries [] (filter (\<lambda>img. status img = Done) imgs)"
  have "content_ok (snd e)" if "e \<in> set ?z" for e
  proof -
    from add_entries_set [of "[]" "filter (\<lambda>img. status img = Done) imgs"] that
    consider x where "x \<in> set imgs" "status x = Done" "e = (fileName x, ZipFile (base64Data x))"
      | "snd e = ZipDir"
      by auto
    then show ?thesis
    proof cases
      case 1
      with assms show ?thesis by (auto simp: content_ok_def)
    next
      case 2
      then show ?thesis by (simp add: content_ok_def)
    qed
  qed
  then have "generateAsync ?z = Inr ?z" by (simp add: generateAsync_ok)
  then show ?thesis by (simp add: downloadAll_def)
qed

text \<open>
  Two runs of the model: a \<open>Done\<close> item that holds \<^verbatim>\<open>data:,\<close> (what \<^verbatim>\<open>toData''data:image/png;base64,iVBORw0KGgo=''\<close> returns for a
  canvas it cannot encode) makes \<^verbatim>\<open>generateAsync\<close> fail, so nothing is saved; and an
  original name with slashes in it brings folder entries into the archive.
\<close>

lemma downloadAll_rejected_example:
  "downloadAll
     [\<lparr>id' = ''k3x9q2m7p'', originalName = ''photo.webp'', pngUrl = ''data:image/png;base64,iVBORw0KGgo='', status = Done\<rparr>,
      \<lparr>id' = ''w8b1z5c0d'', originalName = ''huge.webp'', pngUrl = ''data:,'', status = Done\<rparr>]
   = Inl InvalidBase64"
  by (simp add: downloadAll_def generateAsync_def content_ok_def base64_decodes_def add_entries_def
      zip_file_def parentFolder_def lastIndexOf_def fileName_def base64Data_def ext_match_def)

lemma downloadAll_folders_example:
  "downloadAll
     [\<lparr>id' = ''k3x9q2m7p'', originalName = ''a/b/photo.webp'', pngUrl = ''data:image/png;base64,iVBORw0KGgo='', status = Done\<rparr>]
   = Inr ([(''a/'', ZipDir), (''a/b/'', ZipDir), (''a/b/photo.png'', ZipFile ''iVBORw0KGgo='')],
          ''converted_images.zip'')"
  by (simp add: downloadAll_def generateAsync_def content_ok_def base64_decodes_def add_entries_def
      zip_file_def folderAdd.simps forceTrailingSlash_def parentFolder_def lastIndexOf_def
      fileName_def base64Data_def ext_match_def)

section \<open>Runs: the invariants hold\<close>

lemma run_append:
  "run s (es @ es') = (case run s es of None \<Rightarrow> None | Some s1 \<Rightarrow> run s1 es')"
  by (induction es arbitrary: s) (auto split: option.splits)

lemma generated_ids_Cons: "generated_ids (e # es) = generated_ids [e] @ generated_ids es"
  by (cases "(e # es)" rule: generated_ids.cases) auto

lemma generated_ids_append: "generated_ids (es @ es') = generated_ids es @ generated_ids es'"
proof (induction es)
  case Nil
  show ?case by simp
next
  case (Cons e es)
  have "generated_ids ((e # es) @ es') = generated_ids [e] @ generated_ids (es @ es')"
    using generated_ids_Cons [of e "es @ es'"] by simp
  also have "\<dots> = (generated_ids [e] @ generated_ids es) @ generated_ids es'"
    by (simp add: Cons.IH)
  also have "generated_ids [e] @ generated_ids es = generated_ids (e # es)"
    by (rule generated_ids_Cons [symmetric])
  finally show ?case .
qed

lemma outputs_Cons: "outputs (e # es) = outputs [e] @ outputs es"
  by (cases "(e # es)" rule: outputs.cases) auto

lemma set_done_ids: "map id' (set_done r url xs) = map id' xs"
  by (induction xs) (auto simp: set_done_def)

lemma set_error_ids: "map id' (set_error r xs) = map id' xs"
  by (induction xs) (auto simp: set_error_def)

lemma settle_ids: "map id' (images (processFile_settle r out s)) = map id' (images s)"
  by (cases out) (simp_all add: processFile_settle_def set_done_ids set_error_ids)

lemma settle_item:
  "x' \<in> set (images (processFile_settle r out s)) \<Longrightarrow>
   x' \<in> set (images s) \<and> id' x' \<noteq> r \<or>
   (\<exists>x \<in> set (images s). id' x = r \<and> id' x' = r \<and> originalName x' = originalName x \<and>
      (case out of
         Converted url \<Rightarrow> x' = x\<lparr>pngUrl := url, status := Done\<rparr>
       | Failed \<Rightarrow> x' = x\<lparr>status := Error\<rparr>))"
  by (cases out) (auto simp: processFile_settle_def set_done_def set_error_def)

lemma ids_ok_step:
  assumes "ids_ok G s" and "step s e = Some s'" and "set (generated_ids [e]) \<inter> G = {}"
  shows "ids_ok (G \<union> set (generated_ids [e])) s'"
proof (cases e)
  case (ProcessFile f r)
  show ?thesis
  proof (cases "prefix ''image/'' (type f)")
    case True
    with assms ProcessFile have "r \<notin> G" by simp
    with assms(1,2) ProcessFile True show ?thesis
      by (auto simp: ids_ok_def processFile_start_def)
  next
    case False
    with assms ProcessFile show ?thesis
      by (simp add: processFile_start_def)
  qed
next
  case (Settle r out)
  with assms(2) have r: "r \<in> set (inflight s)" and s': "s' = processFile_settle r out s"
    by (auto split: if_splits)
  have inflight': "inflight s' = remove1 r (inflight s)"
    by (simp add: s' processFile_settle_def)
  have "id' x' \<notin> set (inflight s')"
    if "x' \<in> set (images s')" and "status x' = Done \<or> status x' = Error" for x'
  proof -
    from settle_item [of x' r out s] that(1) s'
    consider "x' \<in> set (images s)" "id' x' \<noteq> r" | "id' x' = r" by auto
    then show ?thesis
    proof cases
      case 1
      with assms(1) that(2) have "id' x' \<notin> set (inflight s)" by (auto simp: ids_ok_def)
      then show ?thesis by (auto simp: inflight' dest: notin_set_remove1)
    next
      case 2
      with assms(1) show ?thesis by (simp add: inflight' ids_ok_def)
    qed
  qed
  moreover have "map id' (images s') = map id' (images s)"
    by (simp add: s' settle_ids)
  then have "distinct (map id' (images s'))"
    using assms(1) by (simp add: ids_ok_def)
  moreover have "id' x' \<in> G" if "x' \<in> set (images s')" for x'
    using settle_item [of x' r out s] that r assms(1) by (auto simp: ids_ok_def s')
  moreover have "set (inflight s') \<subseteq> G" "distinct (inflight s')"
    using assms(1) by (auto simp: inflight' ids_ok_def dest: notin_set_remove1)
  ultimately show ?thesis
    using Settle by (simp add: ids_ok_def)
next
  case (RemoveItem rid)
  with assms(1,2) show ?thesis
    by (auto simp: ids_ok_def removeItem_def distinct_map_filter)
next
  case ClearAll
  with assms(1,2) show ?thesis
    by (auto simp: ids_ok_def clearAll_def)
next
  case DownloadAll
  with assms(1,2) show ?thesis by auto
qed

lemma ids_ok_run:
  "ids_ok G s \<Longrightarrow> run s es = Some s' \<Longrightarrow> distinct (generated_ids es) \<Longrightarrow>
   set (generated_ids es) \<inter> G = {} \<Longrightarrow> ids_ok (G \<union> set (generated_ids es)) s'"
proof (induction es arbitrary: G s)
  case Nil
  then show ?case by simp
next
  case (Cons e es)
  from Cons.prems(2) obtain s1 where s1: "step s e = Some s1" and rest: "run s1 es = Some s'"
    by (auto split: option.splits)
  have split: "generated_ids (e # es) = generated_ids [e] @ generated_ids es"
    by (rule generated_ids_Cons)
  from Cons.prems(3,4) split
  have d: "distinct (generated_ids es)"
    and new: "set (generated_ids [e]) \<inter> G = {}"
    and later: "set (generated_ids es) \<inter> (G \<union> set (generated_ids [e])) = {}"
    by auto
  from ids_ok_step [OF Cons.prems(1) s1 new]
  have "ids_ok (G \<union> set (generated_ids [e])) s1" .
  from Cons.IH [OF this rest d later] split show ?case
    by (simp add: Un_assoc)
qed

lemma ids_ok_init: "ids_ok {} init_page"
  by (simp add: ids_ok_def init_page_def)

lemma status_output_ok_step:
  assumes "ids_ok G s" and "status_output_ok s" and "step s e = Some s'"
    and "[] \<notin> set (outputs [e])"
  shows "status_output_ok s'"
proof (cases e)
  case (ProcessFile f r)
  with assms(2,3) show ?thesis
    by (auto simp: status_output_ok_def processFile_start_def split: if_splits)
next
  case (Settle r out)
  with assms(3) have r: "r \<in> set (inflight s)" and s': "s' = processFile_settle r out s"
    by (auto split: if_splits)
  have "status x' = Done \<longleftrightarrow> pngUrl x' \<noteq> []" if "x' \<in> set (images s')" for x'
  proof -
    from settle_item [of x' r out s] that s'
    consider "x' \<in> set (images s)" "id' x' \<noteq> r"
      | x where "x \<in> set (images s)" "id' x = r"
          "case out of Converted url \<Rightarrow> x' = x\<lparr>pngUrl := url, status := Done\<rparr>
                     | Failed \<Rightarrow> x' = x\<lparr>status := Error\<rparr>"
      by auto
    then show ?thesis
    proof cases
      case 1
      with assms(2) show ?thesis by (simp add: status_output_ok_def)
    next
      case 2
      from 2(1,2) r assms(1) have "status x \<noteq> Done" by (auto simp: ids_ok_def)
      with 2(1) assms(2) have "pngUrl x = []" by (simp add: status_output_ok_def)
      with 2(3) assms(4) Settle show ?thesis by (cases out) auto
    qed
  qed
  then show ?thesis by (simp add: status_output_ok_def)
next
  case (RemoveItem rid)
  with assms(2,3) show ?thesis
    by (auto simp: status_output_ok_def removeItem_def)
next
  case ClearAll
  with assms(3) show ?thesis
    by (auto simp: status_output_ok_def clearAll_def)
next
  case DownloadAll
  with assms(2,3) show ?thesis by auto
qed

lemma status_output_ok_run:
  "ids_ok G s \<Longrightarrow> status_output_ok s \<Longrightarrow> run s es = Some s' \<Longrightarrow>
   distinct (generated_ids es) \<Longrightarrow> set (generated_ids es) \<inter> G = {} \<Longrightarrow>
   [] \<notin> set (outputs es) \<Longrightarrow> status_output_ok s'"
proof (induction es arbitrary: G s)
  case Nil
  then show ?case by simp
next
  case (Cons e es)
  from Cons.prems(3) obtain s1 where s1: "step s e = Some s1" and rest: "run s1 es = Some s'"
    by (auto split: option.splits)
  have split: "generated_ids (e # es) = generated_ids [e] @ generated_ids es"
    by (rule generated_ids_Cons)
  have osplit: "outputs (e # es) = outputs [e] @ outputs es"
    by (rule outputs_Cons)
  from Cons.prems(4,5) split
  have d: "distinct (generated_ids es)"
    and new: "set (generated_ids [e]) \<inter> G = {}"
    and later: "set (generated_ids es) \<inter> (G \<union> set (generated_ids [e])) = {}"
    by auto
  from Cons.prems(6) osplit have o1: "[] \<notin> set (outputs [e])" and o2: "[] \<notin> set (outputs es)"
    by auto
  have "ids_ok (G \<union> set (generated_ids [e])) s1"
    by (rule ids_ok_step [OF Cons.prems(1) s1 new])
  moreover have "status_output_ok s1"
    by (rule status_output_ok_step [OF Cons.prems(1,2) s1 o1])
  ultimately show ?case
    using rest d later o2 by (rule Cons.IH)
qed

lemma frozen_step:
  assumes "frozen x G s" and "step s e = Some s'" and "set (generated_ids [e]) \<inter> G = {}"
  shows "frozen x (G \<union> set (generated_ids [e])) s'"
proof (cases e)
  case (ProcessFile f r)
  show ?thesis
  proof (cases "prefix ''image/'' (type f)")
    case True
    with assms ProcessFile have "r \<notin> G" by simp
    with assms(1,2) ProcessFile True show ?thesis
      by (auto simp: frozen_def processFile_start_def)
  next
    case False
    with assms ProcessFile show ?thesis
      by (simp add: processFile_start_def)
  qed
next
  case (Settle r out)
  with assms(2) have r: "r \<in> set (inflight s)" and s': "s' = processFile_settle r out s"
    by (auto split: if_splits)
  from r assms(1) have ne: "id' x \<noteq> r" by (auto simp: frozen_def)
  have "y = x" if "y \<in> set (images s')" "id' y = id' x" for y
    using settle_item [of y r out s] that s' ne assms(1) by (auto simp: frozen_def)
  moreover have "id' x \<notin> set (inflight s')"
    using assms(1) by (auto simp: s' processFile_settle_def frozen_def dest: notin_set_remove1)
  ultimately show ?thesis
    using assms(1) Settle by (simp add: frozen_def)
next
  case (RemoveItem rid)
  with assms(1,2) show ?thesis
    by (auto simp: frozen_def removeItem_def)
next
  case ClearAll
  with assms(1,2) show ?thesis
    by (auto simp: frozen_def clearAll_def)
next
  case DownloadAll
  with assms(1,2) show ?thesis by auto
qed

lemma frozen_run:
  "frozen x G s \<Longrightarrow> run s es = Some s' \<Longrightarrow> distinct (generated_ids es) \<Longrightarrow>
   set (generated_ids es) \<inter> G = {} \<Longrightarrow> frozen x (G \<union> set (generated_ids es)) s'"
proof (induction es arbitrary: G s)
  case Nil
  then show ?case by simp
next
  case (Cons e es)
  from Cons.prems(2) obtain s1 where s1: "step s e = Some s1" and rest: "run s1 es = Some s'"
    by (auto split: option.splits)
  have split: "generated_ids (e # es) = generated_ids [e] @ generated_ids es"
    by (rule generated_ids_Cons)
  from Cons.prems(3,4) split
  have d: "distinct (generated_ids es)"
    and new: "set (generated_ids [e]) \<inter> G = {}"
    and later: "set (generated_ids es) \<inter> (G \<union> set (generated_ids [e])) = {}"
    by auto
  from frozen_step [OF Cons.prems(1) s1 new]
  have "frozen x (G \<union> set (generated_ids [e])) s1" .
  from Cons.IH [OF this rest d later] split show ?case
    by (simp add: Un_assoc)
qed

lemma ids_ok_frozen:
  "ids_ok G s \<Longrightarrow> x \<in> set (images s) \<Longrightarrow> status x = Done \<or> status x = Error \<Longrightarrow> frozen x G s"
  by (auto simp: ids_ok_def frozen_def distinct_map dest: inj_onD)

lemma run_snoc:
  "run s (es @ [e]) = (case run s es of None \<Rightarrow> None | Some s1 \<Rightarrow> step s1 e)"
  by (simp add: run_append split: option.splits)

lemma step_item_origin:
  assumes "step s e = Some s'" and "x' \<in> set (images s')"
  shows "(\<exists>x \<in> set (images s). id' x = id' x' \<and> originalName x = originalName x')
         \<or> (status x' = Converting \<and> pngUrl x' = [])"
proof (cases e)
  case (ProcessFile f r)
  with assms show ?thesis
    by (auto simp: processFile_start_def split: if_splits)
next
  case (Settle r out)
  with assms(1) have s': "s' = processFile_settle r out s"
    by (auto split: if_splits)
  from settle_item [of x' r out s] assms(2) s' show ?thesis by auto
next
  case (RemoveItem rid)
  with assms show ?thesis by (auto simp: removeItem_def)
next
  case ClearAll
  with assms show ?thesis by (auto simp: clearAll_def)
next
  case DownloadAll
  with assms show ?thesis by auto
qed

lemma step_no_way_back:
  assumes "step s e = Some s'" and "x' \<in> set (images s')"
    and "status x' = Pending \<or> status x' = Converting"
  shows "x' \<in> set (images s)
         \<or> (\<exists>f r. e = ProcessFile f r \<and> prefix ''image/'' (type f) \<and>
               x' = \<lparr>id' = r, originalName = name f, pngUrl = [], status = Converting\<rparr>)"
proof (cases e)
  case (ProcessFile f r)
  with assms show ?thesis
    by (auto simp: processFile_start_def split: if_splits)
next
  case (Settle r out)
  with assms(1) have s': "s' = processFile_settle r out s"
    by (auto split: if_splits)
  from settle_item [of x' r out s] assms(2,3) s' show ?thesis
    by (cases out) auto
next
  case (RemoveItem rid)
  with assms show ?thesis by (auto simp: removeItem_def)
next
  case ClearAll
  with assms show ?thesis by (auto simp: clearAll_def)
next
  case DownloadAll
  with assms show ?thesis by auto
qed

lemma registered_converting:
  "run init_page es = Some s \<Longrightarrow> x \<in> set (images s) \<Longrightarrow>
   \<exists>es1 es2 s1 y. es = es1 @ es2 \<and> run init_page es1 = Some s1 \<and> y \<in> set (images s1) \<and>
      id' y = id' x \<and> originalName y = originalName x \<and> status y = Converting \<and> pngUrl y = [] \<and>
      (status x \<noteq> Converting \<longrightarrow> es2 \<noteq> [])"
proof (induction es arbitrary: s x rule: rev_induct)
  case Nil
  then show ?case by (auto simp: init_page_def)
next
  case (snoc e es)
  from snoc.prems(1) obtain s0 where s0: "run init_page es = Some s0" and e: "step s0 e = Some s"
    by (auto simp: run_snoc split: option.splits)
  from step_item_origin [OF e snoc.prems(2)] show ?case
  proof
    assume "\<exists>x0 \<in> set (images s0). id' x0 = id' x \<and> originalName x0 = originalName x"
    then obtain x0 where x0: "x0 \<in> set (images s0)" "id' x0 = id' x" "originalName x0 = originalName x"
      by auto
    from snoc.IH [OF s0 x0(1)] obtain es1 es2 s1 y where
      "es = es1 @ es2" "run init_page es1 = Some s1" "y \<in> set (images s1)"
      "id' y = id' x0" "originalName y = originalName x0" "status y = Converting" "pngUrl y = []"
      by blast
    with x0 have "es @ [e] = es1 @ (es2 @ [e]) \<and> run init_page es1 = Some s1 \<and> y \<in> set (images s1) \<and>
      id' y = id' x \<and> originalName y = originalName x \<and> status y = Converting \<and> pngUrl y = [] \<and>
      (status x \<noteq> Converting \<longrightarrow> es2 @ [e] \<noteq> [])"
      by simp
    then show ?thesis by blast
  next
    assume "status x = Converting \<and> pngUrl x = []"
    with snoc.prems have "es @ [e] = (es @ [e]) @ [] \<and> run init_page (es @ [e]) = Some s \<and> x \<in> set (images s) \<and>
      id' x = id' x \<and> originalName x = originalName x \<and> status x = Converting \<and> pngUrl x = [] \<and>
      (status x \<noteq> Converting \<longrightarrow> [] \<noteq> ([]::event list))"
      by simp
    then show ?thesis by blast
  qed
qed

section \<open>Accepting and rejecting files\<close>

text \<open>
  C2. A file whose \<^verbatim>\<open>type\<close> does not start with \<^verbatim>\<open>image/\<close> changes nothing: \<^verbatim>\<open>processFile\<close>
  returns at line 21, the list of items is as before and no call is left suspended.
\<close>

theorem processFile_skips_non_image:
  "\<not> prefix ''image/'' (type file) \<Longrightarrow>
   processFile_start file r s = s \<and> step s (ProcessFile file r) = Some s"
  by (simp add: processFile_start_def)

theorem processFile_skips_non_image_witness:
  "\<not> prefix ''image/'' (type \<lparr>name = ''notes.txt'', type = ''text/plain''\<rparr>) \<and>
   processFile_start \<lparr>name = ''notes.txt'', type = ''text/plain''\<rparr> ''k3x9q2m7p'' init_page = init_page \<and>
   step init_page (ProcessFile \<lparr>name = ''notes.txt'', type = ''text/plain''\<rparr> ''k3x9q2m7p'') = Some init_page"
  using processFile_skips_non_image [of "\<lparr>name = ''notes.txt'', type = ''text/plain''\<rparr>" "''k3x9q2m7p''" init_page]
  by simp

text \<open>
  C3. For a file whose \<^verbatim>\<open>type\<close> starts with \<^verbatim>\<open>image/\<close>, the part of \<^verbatim>\<open>processFile\<close> before
  the \<^verbatim>\<open>await\<close> appends exactly one item, with the identifier just drawn, an empty \<open>pngUrl\<close>
  and status \<open>Converting\<close>, and the call is suspended from that step on, so that it can
  only settle later. And whenever a run from the empty page shows an item that is \<open>Done\<close>
  or \<open>Error\<close>, a strictly earlier point of that run showed an item with the same
  identifier and name that was \<open>Converting\<close> with an empty \<open>pngUrl\<close>.
\<close>

theorem processFile_registers_converting:
  "(prefix ''image/'' (type file) \<longrightarrow>
      images (processFile_start file r s) =
        images s @ [\<lparr>id' = r, originalName = name file, pngUrl = [], status = Converting\<rparr>] \<and>
      inflight (processFile_start file r s) = inflight s @ [r]) \<and>
   (run init_page es = Some s' \<and> x \<in> set (images s') \<and> (status x = Done \<or> status x = Error) \<longrightarrow>
      (\<exists>es1 es2 s1 y. es = es1 @ es2 \<and> es2 \<noteq> [] \<and> run init_page es1 = Some s1 \<and>
         y \<in> set (images s1) \<and> id' y = id' x \<and> originalName y = originalName x \<and>
         status y = Converting \<and> pngUrl y = []))"
proof (intro conjI impI)
  assume "run init_page es = Some s' \<and> x \<in> set (images s') \<and> (status x = Done \<or> status x = Error)"
  then have r: "run init_page es = Some s'" and x: "x \<in> set (images s')" and st: "status x \<noteq> Converting"
    by auto
  from registered_converting [OF r x] st
  show "\<exists>es1 es2 s1 y. es = es1 @ es2 \<and> es2 \<noteq> [] \<and> run init_page es1 = Some s1 \<and>
         y \<in> set (images s1) \<and> id' y = id' x \<and> originalName y = originalName x \<and>
         status y = Converting \<and> pngUrl y = []"
    by blast
qed (simp_all add: processFile_start_def)

theorem processFile_registers_converting_witness:
  "images (processFile_start \<lparr>name = ''photo.webp'', type = ''image/webp''\<rparr> ''k3x9q2m7p'' init_page) =
     [\<lparr>id' = ''k3x9q2m7p'', originalName = ''photo.webp'', pngUrl = [], status = Converting\<rparr>] \<and>
   run init_page
     [ProcessFile \<lparr>name = ''photo.webp'', type = ''image/webp''\<rparr> ''k3x9q2m7p'',
      Settle ''k3x9q2m7p'' (Converted ''data:image/png;base64,iVBORw0KGgo='')]
     = Some \<lparr>images = [\<lparr>id' = ''k3x9q2m7p'', originalName = ''photo.webp'',
                          pngUrl = ''data:image/png;base64,iVBORw0KGgo='', status = Done\<rparr>],
               inflight = []\<rparr> \<and>
   (\<exists>es1 es2 s1 y.
      [ProcessFile \<lparr>name = ''photo.webp'', type = ''image/webp''\<rparr> ''k3x9q2m7p'',
       Settle ''k3x9q2m7p'' (Converted ''data:image/png;base64,iVBORw0KGgo='')] = es1 @ es2 \<and>
      es2 \<noteq> [] \<and> run init_page es1 = Some s1 \<and> y \<in> set (images s1) \<and>
      id' y = ''k3x9q2m7p'' \<and> originalName y = ''photo.webp'' \<and> status y = Converting \<and> pngUrl y = [])"
  using processFile_registers_converting
    [of "\<lparr>name = ''photo.webp'', type = ''image/webp''\<rparr>" "''k3x9q2m7p''" init_page
        "[ProcessFile \<lparr>name = ''photo.webp'', type = ''image/webp''\<rparr> ''k3x9q2m7p'',
          Settle ''k3x9q2m7p'' (Converted ''data:image/png;base64,iVBORw0KGgo='')]"
        "\<lparr>images = [\<lparr>id' = ''k3x9q2m7p'', originalName = ''photo.webp'',
                     pngUrl = ''data:image/png;base64,iVBORw0KGgo='', status = Done\<rparr>],
          inflight = []\<rparr>"
        "\<lparr>id' = ''k3x9q2m7p'', originalName = ''photo.webp'',
           pngUrl = ''data:image/png;base64,iVBORw0KGgo='', status = Done\<rparr>"]
  by (simp add: init_page_def processFile_start_def processFile_settle_def set_done_def)

section \<open>Status and output\<close>

lemma set_done_item:
  assumes "y \<in> set (set_done r url prev)" and r: "id' y = r"
  shows "status y = Done \<and> pngUrl y = url"
proof -
  from assms(1) obtain x where y: "y = (if id' x = r then x\<lparr>pngUrl := url, status := Done\<rparr> else x)"
    unfolding set_done_def by (auto simp only: set_map image_iff)
  show ?thesis
  proof (cases "id' x = r")
    case True
    with y show ?thesis by simp
  next
    case False
    with y have "y = x" by simp
    with r False show ?thesis by simp
  qed
qed

lemma set_error_item:
  assumes "y \<in> set (set_error r prev)" and r: "id' y = r"
  shows "status y = Error"
proof -
  from assms(1) obtain x where y: "y = (if id' x = r then x\<lparr>status := Error\<rparr> else x)"
    unfolding set_error_def by (auto simp only: set_map image_iff)
  show ?thesis
  proof (cases "id' x = r")
    case True
    with y show ?thesis by simp
  next
    case False
    with y have "y = x" by simp
    with r False show ?thesis by simp
  qed
qed

lemma set_error_pngUrl: "map pngUrl (set_error r prev) = map pngUrl prev"
  by (induction prev) (simp_all add: set_error_def)

lemma status_output_ok_init: "status_output_ok init_page"
  by (simp add: status_output_ok_def init_page_def)

text \<open>
  Nothing makes the identifiers drawn by \<^verbatim>\<open>Math.random\<close> differ. When two accepted files
  draw the same one, the updaters of lines 37 to 39 and 42 to 44 change every item that has
  it: here the first file is converted, the second one fails, and the first item ends with
  status \<open>Error\<close> although its \<open>pngUrl\<close> holds the data URL.
\<close>

theorem done_iff_output_counterexample:
  "run init_page
     [ProcessFile \<lparr>name = ''a.webp'', type = ''image/webp''\<rparr> ''k3x9q2m7p'', Settle ''k3x9q2m7p'' (Converted ''data:image/png;base64,iVBORw0KGgo=''),
      ProcessFile \<lparr>name = ''b.webp'', type = ''image/webp''\<rparr> ''k3x9q2m7p'', Settle ''k3x9q2m7p'' Failed]
   = Some \<lparr>images = [\<lparr>id' = ''k3x9q2m7p'', originalName = ''a.webp'', pngUrl = ''data:image/png;base64,iVBORw0KGgo='', status = Error\<rparr>, \<lparr>id' = ''k3x9q2m7p'', originalName = ''b.webp'', pngUrl = [], status = Error\<rparr>], inflight = []\<rparr> \<and>
   status \<lparr>id' = ''k3x9q2m7p'', originalName = ''a.webp'', pngUrl = ''data:image/png;base64,iVBORw0KGgo='', status = Error\<rparr> \<noteq> Done \<and> pngUrl \<lparr>id' = ''k3x9q2m7p'', originalName = ''a.webp'', pngUrl = ''data:image/png;base64,iVBORw0KGgo='', status = Error\<rparr> \<noteq> []"
  by (simp add: init_page_def processFile_start_def processFile_settle_def set_done_def set_error_def)

text \<open>
  C4, as amended. In a run from the empty page in which the identifiers drawn for the
  accepted files are pairwise distinct and no data URL returned by \<^verbatim>\<open>toDataURL\<close> is the
  empty string, every item of every state reached has status \<open>Done\<close> exactly when its
  \<open>pngUrl\<close> is not empty. The success updater gives the items with the identifier the
  status \<open>Done\<close> and the data URL; the failure updater gives them the status \<open>Error\<close> and
  leaves every \<open>pngUrl\<close> as it was. (That a registered item has an empty \<open>pngUrl\<close> is
  part of C3.)
\<close>

theorem done_iff_output:
  "(run init_page es = Some s \<and> distinct (generated_ids es) \<and> [] \<notin> set (outputs es) \<longrightarrow>
      (\<forall>x \<in> set (images s). status x = Done \<longleftrightarrow> pngUrl x \<noteq> [])) \<and>
   (\<forall>y \<in> set (set_done r url prev). id' y = r \<longrightarrow> status y = Done \<and> pngUrl y = url) \<and>
   (\<forall>y \<in> set (set_error r prev). id' y = r \<longrightarrow> status y = Error) \<and>
   map pngUrl (set_error r prev) = map pngUrl prev"
proof (intro conjI)
  show "run init_page es = Some s \<and> distinct (generated_ids es) \<and> [] \<notin> set (outputs es) \<longrightarrow>
      (\<forall>x \<in> set (images s). status x = Done \<longleftrightarrow> pngUrl x \<noteq> [])"
  proof
    assume a: "run init_page es = Some s \<and> distinct (generated_ids es) \<and> [] \<notin> set (outputs es)"
    have e: "set (generated_ids es) \<inter> {} = {}" by simp
    from a have r: "run init_page es = Some s" by (rule conjunct1)
    from a have d: "distinct (generated_ids es)" by (elim conjE)
    from a have o: "[] \<notin> set (outputs es)" by (elim conjE)
    have "status_output_ok s"
      by (rule status_output_ok_run [OF ids_ok_init status_output_ok_init r d e o])
    then show "\<forall>x \<in> set (images s). status x = Done \<longleftrightarrow> pngUrl x \<noteq> []"
      unfolding status_output_ok_def .
  qed
next
  show "\<forall>y \<in> set (set_done r url prev). id' y = r \<longrightarrow> status y = Done \<and> pngUrl y = url"
    using set_done_item [of _ r url prev] by blast
next
  show "\<forall>y \<in> set (set_error r prev). id' y = r \<longrightarrow> status y = Error"
    using set_error_item [of _ r prev] by blast
next
  show "map pngUrl (set_error r prev) = map pngUrl prev"
    by (rule set_error_pngUrl)
qed

theorem done_iff_output_witness:
  "run init_page [ProcessFile \<lparr>name = ''a.webp'', type = ''image/webp''\<rparr> ''k3x9q2m7p'', Settle ''k3x9q2m7p'' (Converted ''data:image/png;base64,iVBORw0KGgo=''),
                  ProcessFile \<lparr>name = ''b.webp'', type = ''image/webp''\<rparr> ''w8b1z5c0d'', Settle ''w8b1z5c0d'' Failed]
     = Some \<lparr>images = [\<lparr>id' = ''k3x9q2m7p'', originalName = ''a.webp'', pngUrl = ''data:image/png;base64,iVBORw0KGgo='', status = Done\<rparr>, \<lparr>id' = ''w8b1z5c0d'', originalName = ''b.webp'', pngUrl = [], status = Error\<rparr>], inflight = []\<rparr> \<and>
   distinct (generated_ids [ProcessFile \<lparr>name = ''a.webp'', type = ''image/webp''\<rparr> ''k3x9q2m7p'', Settle ''k3x9q2m7p'' (Converted ''data:image/png;base64,iVBORw0KGgo=''),
                            ProcessFile \<lparr>name = ''b.webp'', type = ''image/webp''\<rparr> ''w8b1z5c0d'', Settle ''w8b1z5c0d'' Failed]) \<and>
   [] \<notin> set (outputs [ProcessFile \<lparr>name = ''a.webp'', type = ''image/webp''\<rparr> ''k3x9q2m7p'', Settle ''k3x9q2m7p'' (Converted ''data:image/png;base64,iVBORw0KGgo=''),
                       ProcessFile \<lparr>name = ''b.webp'', type = ''image/webp''\<rparr> ''w8b1z5c0d'', Settle ''w8b1z5c0d'' Failed]) \<and>
   ((status \<lparr>id' = ''k3x9q2m7p'', originalName = ''a.webp'', pngUrl = ''data:image/png;base64,iVBORw0KGgo='', status = Done\<rparr> = Done)
      = (pngUrl \<lparr>id' = ''k3x9q2m7p'', originalName = ''a.webp'', pngUrl = ''data:image/png;base64,iVBORw0KGgo='', status = Done\<rparr> \<noteq> [])) \<and>
   ((status \<lparr>id' = ''w8b1z5c0d'', originalName = ''b.webp'', pngUrl = [], status = Error\<rparr> = Done)
      = (pngUrl \<lparr>id' = ''w8b1z5c0d'', originalName = ''b.webp'', pngUrl = [], status = Error\<rparr> \<noteq> []))"
  using done_iff_output
    [of "[ProcessFile \<lparr>name = ''a.webp'', type = ''image/webp''\<rparr> ''k3x9q2m7p'', Settle ''k3x9q2m7p'' (Converted ''data:image/png;base64,iVBORw0KGgo=''),
          ProcessFile \<lparr>name = ''b.webp'', type = ''image/webp''\<rparr> ''w8b1z5c0d'', Settle ''w8b1z5c0d'' Failed]"
        "\<lparr>images = [\<lparr>id' = ''k3x9q2m7p'', originalName = ''a.webp'', pngUrl = ''data:image/png;base64,iVBORw0KGgo='', status = Done\<rparr>, \<lparr>id' = ''w8b1z5c0d'', originalName = ''b.webp'', pngUrl = [], status = Error\<rparr>], inflight = []\<rparr>" "''k3x9q2m7p''" "''data:image/png;base64,iVBORw0KGgo=''" "[]"]
  by (simp add: init_page_def processFile_start_def processFile_settle_def set_done_def set_error_def)

section \<open>The status of an item over time\<close>

text \<open>
  With one identifier drawn twice, an item that is \<open>Done\<close> changes again: the failure of
  the second file, which has the same identifier, turns it into \<open>Error\<close>.
\<close>

theorem terminal_status_counterexample:
  "run init_page [ProcessFile \<lparr>name = ''a.webp'', type = ''image/webp''\<rparr> ''k3x9q2m7p'', Settle ''k3x9q2m7p'' (Converted ''data:image/png;base64,iVBORw0KGgo='')]
     = Some \<lparr>images = [\<lparr>id' = ''k3x9q2m7p'', originalName = ''a.webp'', pngUrl = ''data:image/png;base64,iVBORw0KGgo='', status = Done\<rparr>], inflight = []\<rparr> \<and>
   run \<lparr>images = [\<lparr>id' = ''k3x9q2m7p'', originalName = ''a.webp'', pngUrl = ''data:image/png;base64,iVBORw0KGgo='', status = Done\<rparr>], inflight = []\<rparr> [ProcessFile \<lparr>name = ''b.webp'', type = ''image/webp''\<rparr> ''k3x9q2m7p'', Settle ''k3x9q2m7p'' Failed]
     = Some \<lparr>images = [\<lparr>id' = ''k3x9q2m7p'', originalName = ''a.webp'', pngUrl = ''data:image/png;base64,iVBORw0KGgo='', status = Error\<rparr>, \<lparr>id' = ''k3x9q2m7p'', originalName = ''b.webp'', pngUrl = [], status = Error\<rparr>], inflight = []\<rparr>"
  by (simp add: init_page_def processFile_start_def processFile_settle_def set_done_def set_error_def)

text \<open>
  C5, as amended. No step moves an item into \<open>Pending\<close> or \<open>Converting\<close>: an item that has
  one of these statuses after a step was in the list, identical, before the step, or it is
  the item that the step has just registered. And in a run in which the identifiers drawn
  for the accepted files are pairwise distinct, an item that is \<open>Done\<close> or \<open>Error\<close> stays
  as it is: whatever happens afterwards, an item with its identifier in a later state is
  that very item, with the same status, name and \<open>pngUrl\<close>.
\<close>

theorem terminal_status:
  "(step s0 e = Some s1 \<and> y \<in> set (images s1) \<and> (status y = Pending \<or> status y = Converting) \<longrightarrow>
      y \<in> set (images s0) \<or>
      (\<exists>f r. e = ProcessFile f r \<and> prefix ''image/'' (type f) \<and>
         y = \<lparr>id' = r, originalName = name f, pngUrl = [], status = Converting\<rparr>)) \<and>
   (run init_page es = Some s \<and> run s es' = Some s' \<and> distinct (generated_ids (es @ es')) \<and>
    x \<in> set (images s) \<and> (status x = Done \<or> status x = Error) \<longrightarrow>
      (\<forall>z \<in> set (images s'). id' z = id' x \<longrightarrow> z = x))"
proof (intro conjI impI)
  assume "step s0 e = Some s1 \<and> y \<in> set (images s1) \<and> (status y = Pending \<or> status y = Converting)"
  then show "y \<in> set (images s0) \<or>
      (\<exists>f r. e = ProcessFile f r \<and> prefix ''image/'' (type f) \<and>
         y = \<lparr>id' = r, originalName = name f, pngUrl = [], status = Converting\<rparr>)"
    using step_no_way_back [of s0 e s1 y] by blast
next
  assume a: "run init_page es = Some s \<and> run s es' = Some s' \<and> distinct (generated_ids (es @ es')) \<and>
    x \<in> set (images s) \<and> (status x = Done \<or> status x = Error)"
  then have d: "distinct (generated_ids es)" "distinct (generated_ids es')"
    and disj: "set (generated_ids es') \<inter> ({} \<union> set (generated_ids es)) = {}"
    by (auto simp: generated_ids_append)
  from a have "ids_ok ({} \<union> set (generated_ids es)) s"
    using ids_ok_run [OF ids_ok_init _ d(1)] by simp
  with a have "frozen x ({} \<union> set (generated_ids es)) s"
    by (simp add: ids_ok_frozen)
  from frozen_run [OF this _ d(2) disj] a
  show "\<forall>z \<in> set (images s'). id' z = id' x \<longrightarrow> z = x"
    by (simp add: frozen_def)
qed

theorem terminal_status_witness:
  "step init_page (ProcessFile \<lparr>name = ''a.webp'', type = ''image/webp''\<rparr> ''k3x9q2m7p'') = Some \<lparr>images = [\<lparr>id' = ''k3x9q2m7p'', originalName = ''a.webp'', pngUrl = [], status = Converting\<rparr>], inflight = [''k3x9q2m7p'']\<rparr> \<and>
   run init_page [ProcessFile \<lparr>name = ''a.webp'', type = ''image/webp''\<rparr> ''k3x9q2m7p'', Settle ''k3x9q2m7p'' (Converted ''data:image/png;base64,iVBORw0KGgo='')]
     = Some \<lparr>images = [\<lparr>id' = ''k3x9q2m7p'', originalName = ''a.webp'', pngUrl = ''data:image/png;base64,iVBORw0KGgo='', status = Done\<rparr>], inflight = []\<rparr> \<and>
   run \<lparr>images = [\<lparr>id' = ''k3x9q2m7p'', originalName = ''a.webp'', pngUrl = ''data:image/png;base64,iVBORw0KGgo='', status = Done\<rparr>], inflight = []\<rparr> [ProcessFile \<lparr>name = ''b.webp'', type = ''image/webp''\<rparr> ''w8b1z5c0d'', Settle ''w8b1z5c0d'' Failed]
     = Some \<lparr>images = [\<lparr>id' = ''k3x9q2m7p'', originalName = ''a.webp'', pngUrl = ''data:image/png;base64,iVBORw0KGgo='', status = Done\<rparr>, \<lparr>id' = ''w8b1z5c0d'', originalName = ''b.webp'', pngUrl = [], status = Error\<rparr>], inflight = []\<rparr> \<and>
   distinct (generated_ids ([ProcessFile \<lparr>name = ''a.webp'', type = ''image/webp''\<rparr> ''k3x9q2m7p'', Settle ''k3x9q2m7p'' (Converted ''data:image/png;base64,iVBORw0KGgo='')] @
                            [ProcessFile \<lparr>name = ''b.webp'', type = ''image/webp''\<rparr> ''w8b1z5c0d'', Settle ''w8b1z5c0d'' Failed])) \<and>
   filter (\<lambda>z. id' z = ''k3x9q2m7p'')
     [\<lparr>id' = ''k3x9q2m7p'', originalName = ''a.webp'', pngUrl = ''data:image/png;base64,iVBORw0KGgo='', status = Done\<rparr>,
      \<lparr>id' = ''w8b1z5c0d'', originalName = ''b.webp'', pngUrl = [], status = Error\<rparr>]
     = [\<lparr>id' = ''k3x9q2m7p'', originalName = ''a.webp'', pngUrl = ''data:image/png;base64,iVBORw0KGgo='', status = Done\<rparr>]"
  using terminal_status
    [of init_page "ProcessFile \<lparr>name = ''a.webp'', type = ''image/webp''\<rparr> ''k3x9q2m7p''" "\<lparr>images = [\<lparr>id' = ''k3x9q2m7p'', originalName = ''a.webp'', pngUrl = [], status = Converting\<rparr>], inflight = [''k3x9q2m7p'']\<rparr>" "\<lparr>id' = ''k3x9q2m7p'', originalName = ''a.webp'', pngUrl = [], status = Converting\<rparr>"
        "[ProcessFile \<lparr>name = ''a.webp'', type = ''image/webp''\<rparr> ''k3x9q2m7p'', Settle ''k3x9q2m7p'' (Converted ''data:image/png;base64,iVBORw0KGgo='')]"
        "\<lparr>images = [\<lparr>id' = ''k3x9q2m7p'', originalName = ''a.webp'', pngUrl = ''data:image/png;base64,iVBORw0KGgo='', status = Done\<rparr>], inflight = []\<rparr>"
        "[ProcessFile \<lparr>name = ''b.webp'', type = ''image/webp''\<rparr> ''w8b1z5c0d'', Settle ''w8b1z5c0d'' Failed]"
        "\<lparr>images = [\<lparr>id' = ''k3x9q2m7p'', originalName = ''a.webp'', pngUrl = ''data:image/png;base64,iVBORw0KGgo='', status = Done\<rparr>, \<lparr>id' = ''w8b1z5c0d'', originalName = ''b.webp'', pngUrl = [], status = Error\<rparr>], inflight = []\<rparr>" "\<lparr>id' = ''k3x9q2m7p'', originalName = ''a.webp'', pngUrl = ''data:image/png;base64,iVBORw0KGgo='', status = Done\<rparr>"]
  by (simp add: init_page_def processFile_start_def processFile_settle_def set_done_def set_error_def)

section \<open>Identifiers\<close>

text \<open>
  Two accepted files for which \<^verbatim>\<open>Math.random\<close> yields the same string give two items
  with the same identifier; line 24 appends without looking at the list.
\<close>

theorem ids_distinct_counterexample:
  "run init_page [ProcessFile \<lparr>name = ''a.webp'', type = ''image/webp''\<rparr> ''k3x9q2m7p'', ProcessFile \<lparr>name = ''b.webp'', type = ''image/webp''\<rparr> ''k3x9q2m7p'']
     = Some \<lparr>images = [\<lparr>id' = ''k3x9q2m7p'', originalName = ''a.webp'', pngUrl = [], status = Converting\<rparr>, \<lparr>id' = ''k3x9q2m7p'', originalName = ''b.webp'', pngUrl = [], status = Converting\<rparr>], inflight = [''k3x9q2m7p'', ''k3x9q2m7p'']\<rparr> \<and>
   \<not> distinct (map id' [\<lparr>id' = ''k3x9q2m7p'', originalName = ''a.webp'', pngUrl = [], status = Converting\<rparr>, \<lparr>id' = ''k3x9q2m7p'', originalName = ''b.webp'', pngUrl = [], status = Converting\<rparr>])"
  by (simp add: init_page_def processFile_start_def)

text \<open>
  C6, as amended. In a run from the empty page in which the identifiers drawn for the
  accepted files are pairwise distinct, the identifiers of the items of every state
  reached are pairwise distinct.
\<close>

theorem ids_distinct:
  "run init_page es = Some s \<Longrightarrow> distinct (generated_ids es) \<Longrightarrow> distinct (map id' (images s))"
  using ids_ok_run [OF ids_ok_init, of es s] by (simp add: ids_ok_def)

theorem ids_distinct_witness:
  "run init_page [ProcessFile \<lparr>name = ''a.webp'', type = ''image/webp''\<rparr> ''k3x9q2m7p'', ProcessFile \<lparr>name = ''b.webp'', type = ''image/webp''\<rparr> ''w8b1z5c0d'']
     = Some \<lparr>images = [\<lparr>id' = ''k3x9q2m7p'', originalName = ''a.webp'', pngUrl = [], status = Converting\<rparr>, \<lparr>id' = ''w8b1z5c0d'', originalName = ''b.webp'', pngUrl = [], status = Converting\<rparr>], inflight = [''k3x9q2m7p'', ''w8b1z5c0d'']\<rparr> \<and>
   distinct (generated_ids [ProcessFile \<lparr>name = ''a.webp'', type = ''image/webp''\<rparr> ''k3x9q2m7p'', ProcessFile \<lparr>name = ''b.webp'', type = ''image/webp''\<rparr> ''w8b1z5c0d'']) \<and>
   distinct (map id' [\<lparr>id' = ''k3x9q2m7p'', originalName = ''a.webp'', pngUrl = [], status = Converting\<rparr>, \<lparr>id' = ''w8b1z5c0d'', originalName = ''b.webp'', pngUrl = [], status = Converting\<rparr>])"
  using ids_distinct
    [of "[ProcessFile \<lparr>name = ''a.webp'', type = ''image/webp''\<rparr> ''k3x9q2m7p'', ProcessFile \<lparr>name = ''b.webp'', type = ''image/webp''\<rparr> ''w8b1z5c0d'']"
        "\<lparr>images = [\<lparr>id' = ''k3x9q2m7p'', originalName = ''a.webp'', pngUrl = [], status = Converting\<rparr>, \<lparr>id' = ''w8b1z5c0d'', originalName = ''b.webp'', pngUrl = [], status = Converting\<rparr>], inflight = [''k3x9q2m7p'', ''w8b1z5c0d'']\<rparr>"]
  by (simp add: init_page_def processFile_start_def)

section \<open>The bulk download\<close>




text \<open>
  C8. Let \<open>y\<close> be a \<open>Done\<close> item such that no \<open>Done\<close> item after it in the list has the
  same entry name. When the stripped \<open>pngUrl\<close> of every \<open>Done\<close> item is empty or decodes as
  base64, the archive is generated and saved. And whenever it is, then, whichever items
  before \<open>y\<close> have that entry name too, the archive holds exactly one entry under the
  name, and its data are those of \<open>y\<close>: a later item overwrites the earlier ones.
\<close>

theorem downloadAll_collision:
  assumes "status y = Done"
    and "\<forall>z \<in> set zs. status z = Done \<longrightarrow> fileName z \<noteq> fileName y"
  shows "((\<forall>x \<in> set (xs @ y # zs).
             status x = Done \<longrightarrow> base64Data x = [] \<or> base64_decodes (base64Data x)) \<longrightarrow>
            (\<exists>archive. downloadAll (xs @ y # zs) = Inr (archive, ''converted_images.zip''))) \<and>
         (\<forall>archive n. downloadAll (xs @ y # zs) = Inr (archive, n) \<longrightarrow>
            map_of archive (fileName y) = Some (ZipFile (base64Data y)) \<and>
            filter (\<lambda>e. fst e = fileName y) archive = [(fileName y, ZipFile (base64Data y))])"
proof (intro conjI allI impI)
  assume "\<forall>x \<in> set (xs @ y # zs).
             status x = Done \<longrightarrow> base64Data x = [] \<or> base64_decodes (base64Data x)"
  from downloadAll_ok [OF this]
  show "\<exists>archive. downloadAll (xs @ y # zs) = Inr (archive, ''converted_images.zip'')"
    by blast
next
  fix archive n
  assume "downloadAll (xs @ y # zs) = Inr (archive, n)"
  from downloadAll_Inr [OF this]
  have archive: "archive = add_entries [] (filter (\<lambda>x. status x = Done) (xs @ y # zs))"
    by simp
  let ?done = "filter (\<lambda>x. status x = Done)"
  from assms(1) have sel: "?done (xs @ y # zs) = ?done xs @ y # ?done zs" by simp
  from assms(2) have "fileName y \<notin> fileName ` set (?done zs)" by auto
  from add_entries_last [OF this, of "[]" "?done xs"] sel
  have look: "map_of archive (fileName y) = Some (ZipFile (base64Data y))"
    unfolding archive by simp
  have "distinct (map fst archive)"
    unfolding archive by (simp add: add_entries_distinct)
  from one_entry [OF this look] look
  show "map_of archive (fileName y) = Some (ZipFile (base64Data y))"
    and "filter (\<lambda>e. fst e = fileName y) archive = [(fileName y, ZipFile (base64Data y))]"
    by simp_all
qed

theorem downloadAll_collision_witness:
  "fileName \<lparr>id' = ''k3x9q2m7p'', originalName = ''photo.webp'', pngUrl = ''data:image/png;base64,iVBORw0KGgo='', status = Done\<rparr>
     = fileName \<lparr>id' = ''w8b1z5c0d'', originalName = ''photo.png'', pngUrl = ''data:image/png;base64,AAAA'', status = Done\<rparr> \<and>
   downloadAll
     ([\<lparr>id' = ''k3x9q2m7p'', originalName = ''photo.webp'', pngUrl = ''data:image/png;base64,iVBORw0KGgo='', status = Done\<rparr>] @
      \<lparr>id' = ''w8b1z5c0d'', originalName = ''photo.png'', pngUrl = ''data:image/png;base64,AAAA'', status = Done\<rparr> #
      [\<lparr>id' = ''f6t4n0j2a'', originalName = ''third.webp'', pngUrl = [], status = Converting\<rparr>])
     = Inr ([(''photo.png'', ZipFile ''AAAA'')], ''converted_images.zip'') \<and>
   map_of [(''photo.png'', ZipFile ''AAAA'')] ''photo.png'' = Some (ZipFile ''AAAA'') \<and>
   filter (\<lambda>e. fst e = ''photo.png'') [(''photo.png'', ZipFile ''AAAA'')] = [(''photo.png'', ZipFile ''AAAA'')]"
  using downloadAll_collision
    [where y = "\<lparr>id' = ''w8b1z5c0d'', originalName = ''photo.png'', pngUrl = ''data:image/png;base64,AAAA'', status = Done\<rparr>"
       and zs = "[\<lparr>id' = ''f6t4n0j2a'', originalName = ''third.webp'', pngUrl = [], status = Converting\<rparr>]"
       and xs = "[\<lparr>id' = ''k3x9q2m7p'', originalName = ''photo.webp'', pngUrl = ''data:image/png;base64,iVBORw0KGgo='', status = Done\<rparr>]"]
  by (simp add: downloadAll_def generateAsync_def content_ok_def base64_decodes_def add_entries_def zip_file_def parentFolder_def lastIndexOf_def fileName_def base64Data_def ext_match_def)

section \<open>Removal and clearing\<close>

text \<open>
  C9. Removing an identifier that no item of the list has leaves the list as it is, and
  clearing the empty list gives the empty list.
\<close>

theorem removal_idempotent:
  "(rid \<notin> id' ` set imgs \<longrightarrow> removeItem rid imgs = imgs) \<and> clearAll [] = []"
  by (auto simp: removeItem_def clearAll_def filter_id_conv)

theorem removal_idempotent_witness:
  "''zq7h1v4e9'' \<notin> id' ` set [\<lparr>id' = ''k3x9q2m7p'', originalName = ''photo.webp'', pngUrl = [], status = Converting\<rparr>]
   \<and> removeItem ''zq7h1v4e9'' [\<lparr>id' = ''k3x9q2m7p'', originalName = ''photo.webp'', pngUrl = [], status = Converting\<rparr>]
       = [\<lparr>id' = ''k3x9q2m7p'', originalName = ''photo.webp'', pngUrl = [], status = Converting\<rparr>]
   \<and> clearAll [] = []"
  using removal_idempotent [of "''zq7h1v4e9''"
      "[\<lparr>id' = ''k3x9q2m7p'', originalName = ''photo.webp'', pngUrl = [], status = Converting\<rparr>]"]
  by simp

text \<open>
  C10. The list after \<^verbatim>\<open>removeItem rid\<close> consists of the items whose identifier is not
  \<open>rid\<close>: it is a subsequence of the list before (same items, unchanged, in the same
  order), every item with another identifier occurs as often as before, and no item with
  the identifier \<open>rid\<close> is left, however many there were.
\<close>

theorem removeItem_frame:
  "set (removeItem rid imgs) = {i \<in> set imgs. id' i \<noteq> rid} \<and>
   subseq (removeItem rid imgs) imgs \<and>
   (\<forall>i. id' i \<noteq> rid \<longrightarrow> count_list (removeItem rid imgs) i = count_list imgs i) \<and>
   (\<forall>i \<in> set (removeItem rid imgs). id' i \<noteq> rid)"
  by (induction imgs) (auto simp: removeItem_def)

theorem removeItem_frame_witness:
  "removeItem ''k3x9q2m7p'' [\<lparr>id' = ''k3x9q2m7p'', originalName = ''a.webp'', pngUrl = [], status = Converting\<rparr>, \<lparr>id' = ''w8b1z5c0d'', originalName = ''b.webp'', pngUrl = [], status = Converting\<rparr>, \<lparr>id' = ''k3x9q2m7p'', originalName = ''a.webp'', pngUrl = ''data:image/png;base64,iVBORw0KGgo='', status = Error\<rparr>] = [\<lparr>id' = ''w8b1z5c0d'', originalName = ''b.webp'', pngUrl = [], status = Converting\<rparr>] \<and>
   subseq [\<lparr>id' = ''w8b1z5c0d'', originalName = ''b.webp'', pngUrl = [], status = Converting\<rparr>] [\<lparr>id' = ''k3x9q2m7p'', originalName = ''a.webp'', pngUrl = [], status = Converting\<rparr>, \<lparr>id' = ''w8b1z5c0d'', originalName = ''b.webp'', pngUrl = [], status = Converting\<rparr>, \<lparr>id' = ''k3x9q2m7p'', originalName = ''a.webp'', pngUrl = ''data:image/png;base64,iVBORw0KGgo='', status = Error\<rparr>] \<and>
   count_list [\<lparr>id' = ''w8b1z5c0d'', originalName = ''b.webp'', pngUrl = [], status = Converting\<rparr>] \<lparr>id' = ''w8b1z5c0d'', originalName = ''b.webp'', pngUrl = [], status = Converting\<rparr> = count_list [\<lparr>id' = ''k3x9q2m7p'', originalName = ''a.webp'', pngUrl = [], status = Converting\<rparr>, \<lparr>id' = ''w8b1z5c0d'', originalName = ''b.webp'', pngUrl = [], status = Converting\<rparr>, \<lparr>id' = ''k3x9q2m7p'', originalName = ''a.webp'', pngUrl = ''data:image/png;base64,iVBORw0KGgo='', status = Error\<rparr>] \<lparr>id' = ''w8b1z5c0d'', originalName = ''b.webp'', pngUrl = [], status = Converting\<rparr>"
  using removeItem_frame [of "''k3x9q2m7p''" "[\<lparr>id' = ''k3x9q2m7p'', originalName = ''a.webp'', pngUrl = [], status = Converting\<rparr>, \<lparr>id' = ''w8b1z5c0d'', originalName = ''b.webp'', pngUrl = [], status = Converting\<rparr>, \<lparr>id' = ''k3x9q2m7p'', originalName = ''a.webp'', pngUrl = ''data:image/png;base64,iVBORw0KGgo='', status = Error\<rparr>]"]
  by (simp add: removeItem_def)

end
